theory Spec2Isabelle
  imports Complex_Main "HOL-Library.Char_ord" "HOL-Library.List_Lexorder"
begin

section \<open>Python strings\<close>

text \<open>
  A Python \<open>str\<close> is a \<open>string\<close> (a list of characters). \<open>str_find s sub start\<close> is
  \<^verbatim>\<open>s.find(sub, start)\<close> with \<open>None\<close> for the result \<open>-1\<close>; \<open>py_in_str sub s\<close> is
  \<^verbatim>\<open>sub in s\<close>; \<open>py_slice s i j\<close> is \<^verbatim>\<open>s[i:j]\<close> for non-negative bounds;
  \<open>split_first sep s\<close> is \<^verbatim>\<open>s.split(sep)[0]\<close> for a one-character separator.
\<close>

fun find_at_0 :: "string \<Rightarrow> string \<Rightarrow> nat option" where
  "find_at_0 sub [] = (if sub = [] then Some 0 else None)"
| "find_at_0 sub (c # cs) =
     (if take (length sub) (c # cs) = sub then Some 0
      else map_option Suc (find_at_0 sub cs))"

definition str_find :: "string \<Rightarrow> string \<Rightarrow> nat \<Rightarrow> nat option" where
  "str_find s sub start =
     (if start \<le> length s then map_option (\<lambda>i. i + start) (find_at_0 sub (drop start s))
      else None)"

definition py_in_str :: "string \<Rightarrow> string \<Rightarrow> bool" where
  "py_in_str sub s = (str_find s sub 0 \<noteq> None)"

definition py_slice :: "string \<Rightarrow> nat \<Rightarrow> nat \<Rightarrow> string" where
  "py_slice s i j = take (j - i) (drop i s)"

definition split_first :: "char \<Rightarrow> string \<Rightarrow> string" where
  "split_first sep s = takeWhile (\<lambda>x. x \<noteq> sep) s"

section \<open>URL normalizer (html_youtube_parser.py)\<close>

definition watch_prefix :: string where
  "watch_prefix = ''https://www.youtube.com/watch?v=''"

text \<open>
  \<^verbatim>\<open>re.search(r'[?&]v=([^&]+)', url)\<close>: \<open>match_here\<close> matches the pattern
  at the head of the string (\<open>?\<close> or \<open>&\<close>, then \<open>v=\<close>, then at least one character
  other than \<open>&\<close>; the group is the longest run of such characters), and the search
  takes the leftmost position that matches. \<open>None\<close> is Python's \<open>None\<close> (no match).
\<close>

definition match_here :: "string \<Rightarrow> string option" where
  "match_here s =
     (case s of
        [] \<Rightarrow> None
      | c # cs \<Rightarrow>
          if (c = CHR ''?'' \<or> c = CHR ''&'') \<and> take 2 cs = ''v=''
             \<and> takeWhile (\<lambda>x. x \<noteq> CHR ''&'') (drop 2 cs) \<noteq> []
          then Some (takeWhile (\<lambda>x. x \<noteq> CHR ''&'') (drop 2 cs))
          else None)"

fun video_id_from_url :: "string \<Rightarrow> string option" where
  "video_id_from_url [] = None"
| "video_id_from_url (c # cs) =
     (case match_here (c # cs) of
        Some video_id \<Rightarrow> Some video_id
      | None \<Rightarrow> video_id_from_url cs)"

text \<open>
  \<^verbatim>\<open>if video_id:\<close> tests for a match that is not the empty string; the group of the
  pattern above is never empty, so the test is the case distinction on the match.
\<close>

definition clean_youtube_url :: "string \<Rightarrow> string" where
  "clean_youtube_url url =
     (if url = [] then url
      else (case video_id_from_url url of
              Some video_id \<Rightarrow>
                if video_id \<noteq> [] then watch_prefix @ video_id
                else if CHR ''&'' \<in> set url then split_first (CHR ''&'') url else url
            | None \<Rightarrow>
                if CHR ''&'' \<in> set url then split_first (CHR ''&'') url else url))"

text \<open>
  A video record is the Python dictionary \<^verbatim>\<open>{'url': url}\<close>.
\<close>

datatype video = Video (video_url: string)

section \<open>Parsed JSON values and the Python operations on them\<close>

text \<open>
  What \<^verbatim>\<open>json.loads\<close> returns: \<open>None\<close>, a \<open>bool\<close>, an \<open>int\<close>, a \<open>float\<close>, a \<open>str\<close>,
  a \<open>list\<close> or a \<open>dict\<close> with string keys. A \<open>dict\<close> is an association list with
  distinct keys, read with \<open>map_of\<close>. A \<open>float\<close> is given by its exact rational value (the non-standard literals
  \<open>NaN\<close> and \<open>Infinity\<close> are not represented).
\<close>

datatype json =
    JNull
  | JBool bool
  | JInt int
  | JFloat rat
  | JStr string
  | JArr "json list"
  | JObj "(string \<times> json) list"

text \<open>
  The exception classes the modelled operations raise. The last three are those of
  \<^verbatim>\<open>json.loads\<close> and \<^verbatim>\<open>json.load\<close>: \<open>JSONDecodeError\<close> on a text that is not JSON,
  \<open>RecursionError\<close> on a text nested too deeply, and \<open>ValueError\<close>, which here stands for
  a \<open>ValueError\<close> that is not a \<open>JSONDecodeError\<close>, on an integer literal with more digits
  than the interpreter converts.
\<close>

datatype error =
    KeyError | TypeError | AttributeError | IndexError | OSError
  | JSONDecodeError | RecursionError | ValueError

text \<open>\<^verbatim>\<open>except Exception\<close>: every class above derives from \<open>Exception\<close>.\<close>

fun is_Exception :: "error \<Rightarrow> bool" where
  "is_Exception KeyError = True"
| "is_Exception TypeError = True"
| "is_Exception AttributeError = True"
| "is_Exception IndexError = True"
| "is_Exception OSError = True"
| "is_Exception JSONDecodeError = True"
| "is_Exception RecursionError = True"
| "is_Exception ValueError = True"

definition bind_err :: "error + 'a \<Rightarrow> ('a \<Rightarrow> error + 'b) \<Rightarrow> error + 'b" where
  "bind_err m f = (case m of Inl e \<Rightarrow> Inl e | Inr x \<Rightarrow> f x)"

text \<open>Truth value of an object, as tested by \<^verbatim>\<open>if x:\<close>.\<close>

fun py_truthy :: "json \<Rightarrow> bool" where
  "py_truthy JNull = False"
| "py_truthy (JBool b) = b"
| "py_truthy (JInt i) = (i \<noteq> 0)"
| "py_truthy (JFloat r) = (r \<noteq> 0)"
| "py_truthy (JStr s) = (s \<noteq> [])"
| "py_truthy (JArr xs) = (xs \<noteq> [])"
| "py_truthy (JObj kvs) = (kvs \<noteq> [])"

text \<open>\<^verbatim>\<open>x.get(k, d)\<close>: only a \<open>dict\<close> has the method.\<close>

fun py_get :: "json \<Rightarrow> string \<Rightarrow> json \<Rightarrow> error + json" where
  "py_get (JObj kvs) k d = Inr (case map_of kvs k of Some v \<Rightarrow> v | None \<Rightarrow> d)"
| "py_get _ k d = Inl AttributeError"

text \<open>\<^verbatim>\<open>x[k]\<close> for a string \<open>k\<close>.\<close>

fun py_item :: "json \<Rightarrow> string \<Rightarrow> error + json" where
  "py_item (JObj kvs) k = (case map_of kvs k of Some v \<Rightarrow> Inr v | None \<Rightarrow> Inl KeyError)"
| "py_item _ k = Inl TypeError"

text \<open>\<^verbatim>\<open>x[0]\<close>; a \<open>dict\<close> parsed from JSON has no key \<open>0\<close>.\<close>

fun py_item0 :: "json \<Rightarrow> error + json" where
  "py_item0 (JArr []) = Inl IndexError"
| "py_item0 (JArr (x # xs)) = Inr x"
| "py_item0 (JStr []) = Inl IndexError"
| "py_item0 (JStr (c # cs)) = Inr (JStr [c])"
| "py_item0 (JObj kvs) = Inl KeyError"
| "py_item0 _ = Inl TypeError"

text \<open>
  The elements that \<^verbatim>\<open>for x in v\<close> visits: the items of a \<open>list\<close>, the keys of a \<open>dict\<close>,
  the one-character strings of a \<open>str\<close>.
\<close>

fun py_iter :: "json \<Rightarrow> error + json list" where
  "py_iter (JArr xs) = Inr xs"
| "py_iter (JObj kvs) = Inr (map (\<lambda>kv. JStr (fst kv)) kvs)"
| "py_iter (JStr s) = Inr (map (\<lambda>c. JStr [c]) s)"
| "py_iter _ = Inl TypeError"

text \<open>\<^verbatim>\<open>k in v\<close> for a string \<open>k\<close>: a key of a \<open>dict\<close>, an item of a \<open>list\<close>, a substring of a \<open>str\<close>.\<close>

fun py_in :: "string \<Rightarrow> json \<Rightarrow> error + bool" where
  "py_in k (JObj kvs) = Inr (map_of kvs k \<noteq> None)"
| "py_in k (JArr xs) = Inr (JStr k \<in> set xs)"
| "py_in k (JStr s) = Inr (py_in_str k s)"
| "py_in k _ = Inl TypeError"

text \<open>
  \<^verbatim>\<open>f"{v}"\<close>: a \<open>str\<close> is inserted as it is; for every other value the text is
  \<^verbatim>\<open>str(v)\<close>, the interpreter's own rendering, a parameter \<open>str_of\<close> of the model.
\<close>

definition py_format :: "(json \<Rightarrow> string) \<Rightarrow> json \<Rightarrow> string" where
  "py_format str_of v = (case v of JStr s \<Rightarrow> s | _ \<Rightarrow> str_of v)"

section \<open>Console output\<close>

text \<open>One constructor for each \<^verbatim>\<open>print\<close> of the two scripts, with the values it interpolates.\<close>

datatype message =
    FileNotFoundMsg string
  | ReadErrorMsg error
  | InvalidJsonMsg string
  | JsonExtractionFailedMsg
  | ExtractJsonErrorMsg error
  | VideoInfoErrorMsg error
  | ParsingMsg string
  | NoVideosMsg
  | SuccessMsg nat string
  | PreviewHeaderMsg
  | PreviewLineMsg nat string
  | WriteErrorMsg error
  | UsageMsg
  | ExampleMsg
  | ArgumentErrorMsg
  | TracebackMsg error

section \<open>Structured-data walker (html_youtube_parser.py)\<close>

text \<open>
  \<open>extract_video_info\<close>: the result is the record or \<open>None\<close>, with the lines printed.
  An exception that an \<^verbatim>\<open>except\<close> clause does not catch is the result \<open>Inl\<close>.
\<close>

definition extract_video_info ::
  "(json \<Rightarrow> string) \<Rightarrow> json \<Rightarrow> error + (video option \<times> message list)" where
  "extract_video_info str_of video_renderer =
     (case py_get video_renderer ''videoId'' (JStr []) of
        Inr video_id \<Rightarrow>
          (let url = (if py_truthy video_id then watch_prefix @ py_format str_of video_id
                      else [])
           in if url \<noteq> [] then Inr (Some (Video url), []) else Inr (None, []))
      | Inl e \<Rightarrow> if is_Exception e then Inr (None, [VideoInfoErrorMsg e]) else Inl e)"

text \<open>
  The loops of \<open>extract_videos_from_json\<close> append to the list \<open>videos\<close> and print. Their
  state is the list so far with the lines printed so far; their outcome is that state
  with the exception that ended the loop, if one did.
\<close>

type_synonym walk_state = "video list \<times> message list"

type_synonym outcome = "error option \<times> walk_state"

fun items_loop :: "(json \<Rightarrow> string) \<Rightarrow> json list \<Rightarrow> walk_state \<Rightarrow> outcome" where
  "items_loop str_of [] st = (None, st)"
| "items_loop str_of (item # rest) (videos, out) =
     (case py_get item ''gridVideoRenderer'' (JObj []) of
        Inl e \<Rightarrow> (Some e, (videos, out))
      | Inr video_renderer \<Rightarrow>
          if py_truthy video_renderer then
            (case extract_video_info str_of video_renderer of
               Inl e \<Rightarrow> (Some e, (videos, out))
             | Inr (video_info, printed) \<Rightarrow>
                 (case video_info of
                    Some v \<Rightarrow> items_loop str_of rest (videos @ [v], out @ printed)
                  | None \<Rightarrow> items_loop str_of rest (videos, out @ printed)))
          else items_loop str_of rest (videos, out))"

text \<open>
  The items of one entry of the section list:
  \<^verbatim>\<open>content_item.get('itemSectionRenderer', {}).get('contents', [{}])[0]
     .get('gridRenderer', {}).get('items', [])\<close>, then the iteration over them.
\<close>

definition section_items :: "json \<Rightarrow> error + json list" where
  "section_items content_item =
     bind_err (py_get content_item ''itemSectionRenderer'' (JObj [])) (\<lambda>item_section.
     bind_err (py_get item_section ''contents'' (JArr [JObj []])) (\<lambda>section_contents.
     bind_err (py_item0 section_contents) (\<lambda>first_content.
     bind_err (py_get first_content ''gridRenderer'' (JObj [])) (\<lambda>grid_renderer.
     bind_err (py_get grid_renderer ''items'' (JArr [])) py_iter))))"

fun contents_loop :: "(json \<Rightarrow> string) \<Rightarrow> json list \<Rightarrow> walk_state \<Rightarrow> outcome" where
  "contents_loop str_of [] st = (None, st)"
| "contents_loop str_of (content_item # rest) st =
     (case section_items content_item of
        Inl e \<Rightarrow> (Some e, st)
      | Inr items \<Rightarrow>
          (case items_loop str_of items st of
             (Some e, st') \<Rightarrow> (Some e, st')
           | (None, st') \<Rightarrow> contents_loop str_of rest st'))"

text \<open>
  The body run for the tab titled \<open>Videos\<close>: the section list
  \<^verbatim>\<open>tab_renderer.get('content', {}).get('sectionListRenderer', {}).get('contents', [])\<close>
  and the loop over it.
\<close>

definition tab_contents :: "json \<Rightarrow> error + json list" where
  "tab_contents tab_renderer =
     bind_err (py_get tab_renderer ''content'' (JObj [])) (\<lambda>content.
     bind_err (py_get content ''sectionListRenderer'' (JObj [])) (\<lambda>section_list.
     bind_err (py_get section_list ''contents'' (JArr [])) py_iter))"

definition videos_tab :: "(json \<Rightarrow> string) \<Rightarrow> json \<Rightarrow> walk_state \<Rightarrow> outcome" where
  "videos_tab str_of tab_renderer st =
     (case tab_contents tab_renderer of
        Inl e \<Rightarrow> (Some e, st)
      | Inr contents \<Rightarrow> contents_loop str_of contents st)"

text \<open>
  The loop over the tabs; \<^verbatim>\<open>== 'Videos'\<close> holds for the string \<open>Videos\<close> and for no
  other value, and the \<^verbatim>\<open>break\<close> ends the loop after the first such tab.
\<close>

fun tabs_loop :: "(json \<Rightarrow> string) \<Rightarrow> json list \<Rightarrow> walk_state \<Rightarrow> outcome" where
  "tabs_loop str_of [] st = (None, st)"
| "tabs_loop str_of (tab # rest) st =
     (case py_get tab ''tabRenderer'' (JObj []) of
        Inl e \<Rightarrow> (Some e, st)
      | Inr tab_renderer \<Rightarrow>
          (case py_get tab_renderer ''title'' JNull of
             Inl e \<Rightarrow> (Some e, st)
           | Inr title \<Rightarrow>
               if title = JStr ''Videos'' then videos_tab str_of tab_renderer st
               else tabs_loop str_of rest st))"

definition possible_paths :: "string list list" where
  "possible_paths =
     [[''twoColumnBrowseResultsRenderer'', ''tabs''],
      [''contents'', ''twoColumnBrowseResultsRenderer'', ''tabs'']]"

fun resolve_path :: "json \<Rightarrow> string list \<Rightarrow> error + json" where
  "resolve_path current [] = Inr current"
| "resolve_path current (key # path) =
     bind_err (py_item current key) (\<lambda>c. resolve_path c path)"

text \<open>
  The first path that resolves gives \<open>tabs\<close>; \<^verbatim>\<open>except (KeyError, TypeError)\<close> moves on
  to the next path, and \<open>tabs\<close> stays \<open>None\<close> when no path is left.
\<close>

fun find_tabs :: "json \<Rightarrow> string list list \<Rightarrow> error + json option" where
  "find_tabs data [] = Inr None"
| "find_tabs data (path # paths) =
     (case resolve_path data path of
        Inr current \<Rightarrow> Inr (Some current)
      | Inl e \<Rightarrow> if e = KeyError \<or> e = TypeError then find_tabs data paths else Inl e)"

text \<open>The body of the \<^verbatim>\<open>try\<close> block of \<open>extract_videos_from_json\<close>.\<close>

definition json_walk :: "(json \<Rightarrow> string) \<Rightarrow> json \<Rightarrow> outcome" where
  "json_walk str_of data =
     (case py_get data ''contents'' (JObj []) of
        Inl e \<Rightarrow> (Some e, ([], []))
      | Inr contents \<Rightarrow>
          (case find_tabs data possible_paths of
             Inl e \<Rightarrow> (Some e, ([], []))
           | Inr None \<Rightarrow> (None, ([], []))
           | Inr (Some tabs) \<Rightarrow>
               if \<not> py_truthy tabs then (None, ([], []))
               else (case py_iter tabs of
                       Inl e \<Rightarrow> (Some e, ([], []))
                     | Inr tab_list \<Rightarrow> tabs_loop str_of tab_list ([], []))))"

text \<open>
  \<open>extract_videos_from_json\<close>: after \<^verbatim>\<open>except Exception\<close> has printed the error, the
  function returns the list \<open>videos\<close> as the walk left it.
\<close>

definition extract_videos_from_json ::
  "(json \<Rightarrow> string) \<Rightarrow> json \<Rightarrow> error + walk_state" where
  "extract_videos_from_json str_of data =
     (case json_walk str_of data of
        (None, st) \<Rightarrow> Inr st
      | (Some e, (videos, out)) \<Rightarrow>
          if is_Exception e then Inr (videos, out @ [ExtractJsonErrorMsg e]) else Inl e)"

section \<open>HTML fallback scanner (html_youtube_parser.py)\<close>

text \<open>
  What the code reads of the tree that \<open>BeautifulSoup\<close> builds: for each \<open>script\<close> tag
  its \<^verbatim>\<open>.string\<close> (\<open>None\<close> when the tag has no single text child), and for each \<open>a\<close> tag
  its \<open>href\<close> attribute (\<open>None\<close> when absent), both in document order.
\<close>

record soup =
  scripts :: "string option list"
  anchors :: "string option list"

text \<open>
  \<^verbatim>\<open>soup.find_all('a', href=re.compile(r'/watch\?v='))\<close>: the anchors that have an
  \<open>href\<close> in which the pattern, a literal text, is found.
\<close>

definition video_links :: "soup \<Rightarrow> string list" where
  "video_links sp =
     concat (map (\<lambda>a. case a of
                          Some href \<Rightarrow> if py_in_str ''/watch?v='' href then [href] else []
                        | None \<Rightarrow> []) (anchors sp))"

text \<open>
  The first loop of \<open>extract_videos_from_html\<close>. No statement of its \<^verbatim>\<open>try\<close> block
  raises on an \<open>href\<close> that is a string, so the \<^verbatim>\<open>except\<close> branch has no case here.
\<close>

fun links_loop :: "string list \<Rightarrow> video list \<Rightarrow> video list" where
  "links_loop [] videos = videos"
| "links_loop (href # rest) videos =
     (let url = (if take 1 href = ''/'' then ''https://www.youtube.com'' @ href else href);
          url = clean_youtube_url url
      in if url \<noteq> [] \<and> (case video_id_from_url url of Some g \<Rightarrow> g \<noteq> [] | None \<Rightarrow> False)
         then links_loop rest (videos @ [Video url])
         else links_loop rest videos)"

text \<open>The second loop: \<open>seen_urls\<close> and \<open>unique_videos\<close>.\<close>

fun unique_loop :: "video list \<Rightarrow> string set \<Rightarrow> video list \<Rightarrow> video list" where
  "unique_loop [] seen_urls unique_videos = unique_videos"
| "unique_loop (v # rest) seen_urls unique_videos =
     (if video_url v \<notin> seen_urls
      then unique_loop rest (insert (video_url v) seen_urls) (unique_videos @ [v])
      else unique_loop rest seen_urls unique_videos)"

definition extract_videos_from_html :: "soup \<Rightarrow> video list" where
  "extract_videos_from_html sp = unique_loop (links_loop (video_links sp) []) {} []"

section \<open>Embedded-data extractor (html_youtube_parser.py)\<close>

definition start_marker :: string where
  "start_marker = ''var ytInitialData = ''"

definition end_marker :: string where
  "end_marker = ''};''"

text \<open>
  The text cut out of one script: from just after the start marker to the closing brace
  of the first end marker after it; \<open>None\<close> when either marker is not found.
\<close>

definition initial_data_json :: "string \<Rightarrow> string option" where
  "initial_data_json script_content =
     (case str_find script_content start_marker 0 of
        None \<Rightarrow> None
      | Some i \<Rightarrow>
          (let start_idx = i + length start_marker in
           case str_find script_content end_marker start_idx of
             None \<Rightarrow> None
           | Some end_idx \<Rightarrow> Some (py_slice script_content start_idx (end_idx + 1))))"

text \<open>
  The loop over the script tags. \<open>loads\<close> is \<^verbatim>\<open>json.loads\<close>, a parameter: the value parsed,
  or the exception raised. \<^verbatim>\<open>except json.JSONDecodeError\<close> catches that class and goes on
  with the next script; any other exception of \<open>loads\<close> leaves the loop and the function.
  The result is \<open>Some videos\<close> when the loop returns from the function and \<open>None\<close> when it
  runs to its end.
\<close>

fun scripts_loop ::
  "(string \<Rightarrow> error + json) \<Rightarrow> (json \<Rightarrow> string) \<Rightarrow> string option list \<Rightarrow> message list
     \<Rightarrow> error + (video list option \<times> message list)" where
  "scripts_loop loads str_of [] out = Inr (None, out)"
| "scripts_loop loads str_of (script # rest) out =
     (case script of
        None \<Rightarrow> scripts_loop loads str_of rest out
      | Some script_content \<Rightarrow>
          if script_content \<noteq> [] \<and> py_in_str ''ytInitialData'' script_content then
            (case initial_data_json script_content of
               None \<Rightarrow> scripts_loop loads str_of rest out
             | Some json_str \<Rightarrow>
                 (case loads json_str of
                    Inl e \<Rightarrow>
                      if e = JSONDecodeError then scripts_loop loads str_of rest out
                      else Inl e
                  | Inr data \<Rightarrow>
                      (case extract_videos_from_json str_of data of
                         Inl e \<Rightarrow> Inl e
                       | Inr (videos, printed) \<Rightarrow>
                           if videos \<noteq> [] then Inr (Some videos, out @ printed)
                           else scripts_loop loads str_of rest (out @ printed))))
          else scripts_loop loads str_of rest out)"

text \<open>
  \<open>parse_youtube_html\<close> once the file has been read; \<open>soup_of\<close> is the \<open>BeautifulSoup\<close>
  parser, a parameter.
\<close>

definition parse_html_content ::
  "(string \<Rightarrow> error + json) \<Rightarrow> (string \<Rightarrow> soup) \<Rightarrow> (json \<Rightarrow> string) \<Rightarrow> string
     \<Rightarrow> error + (video list \<times> message list)" where
  "parse_html_content loads soup_of str_of html_content =
     (let sp = soup_of html_content in
      case scripts_loop loads str_of (scripts sp) [] of
        Inl e \<Rightarrow> Inl e
      | Inr (Some videos, out) \<Rightarrow> Inr (videos, out)
      | Inr (None, out) \<Rightarrow> Inr (extract_videos_from_html sp, out @ [JsonExtractionFailedMsg]))"

section \<open>Files and the extractor's command line (html_youtube_parser.py)\<close>

text \<open>
  A path names no file, a file that cannot be read (any error of \<open>open\<close> or \<open>read\<close> other
  than a missing file), or a file with its text. \<open>writable\<close> tells whether opening the
  path for writing succeeds.
\<close>

datatype fnode = Missing | Unreadable | Content string

record world =
  files :: "string \<Rightarrow> fnode"
  writable :: "string \<Rightarrow> bool"

definition parse_youtube_html ::
  "(string \<Rightarrow> error + json) \<Rightarrow> (string \<Rightarrow> soup) \<Rightarrow> (json \<Rightarrow> string) \<Rightarrow> world \<Rightarrow> string
     \<Rightarrow> error + (video list \<times> message list)" where
  "parse_youtube_html loads soup_of str_of w html_file_path =
     (case files w html_file_path of
        Missing \<Rightarrow> Inr ([], [FileNotFoundMsg html_file_path])
      | Unreadable \<Rightarrow>
          if is_Exception OSError then Inr ([], [ReadErrorMsg OSError]) else Inl OSError
      | Content html_content \<Rightarrow> parse_html_content loads soup_of str_of html_content)"

text \<open>The dictionary \<^verbatim>\<open>{"videos": videos}\<close> that \<open>main\<close> writes, as a JSON value.\<close>

definition output_data :: "video list \<Rightarrow> json" where
  "output_data videos =
     JObj [(''videos'', JArr (map (\<lambda>v. JObj [(''url'', JStr (video_url v))]) videos))]"

definition preview_lines :: "video list \<Rightarrow> message list" where
  "preview_lines videos =
     map (\<lambda>iv. PreviewLineMsg (fst iv + 1) (video_url (snd iv))) (enumerate 0 (take 5 videos))"

text \<open>
  \<open>main\<close> with the parsed arguments; \<open>dumps\<close> is the text \<^verbatim>\<open>json.dump\<close> writes, a
  parameter. The result is the lines printed and the files afterwards.
\<close>

definition main ::
  "(string \<Rightarrow> error + json) \<Rightarrow> (string \<Rightarrow> soup) \<Rightarrow> (json \<Rightarrow> string) \<Rightarrow> (json \<Rightarrow> string)
     \<Rightarrow> world \<Rightarrow> string \<Rightarrow> string \<Rightarrow> error + (message list \<times> world)" where
  "main loads soup_of str_of dumps w html_file output_file =
     (case parse_youtube_html loads soup_of str_of w html_file of
        Inl e \<Rightarrow> Inl e
      | Inr (videos, printed) \<Rightarrow>
          if videos = [] then Inr ([ParsingMsg html_file] @ printed @ [NoVideosMsg], w)
          else if writable w output_file then
            Inr ([ParsingMsg html_file] @ printed
                   @ [SuccessMsg (length videos) output_file, PreviewHeaderMsg]
                   @ preview_lines videos,
                 w\<lparr>files := (files w)(output_file := Content (dumps (output_data videos)))\<rparr>)
          else if is_Exception OSError then
            Inr ([ParsingMsg html_file] @ printed @ [WriteErrorMsg OSError], w)
          else Inl OSError)"

text \<open>
  The positional arguments as \<open>argparse\<close> reads them from \<^verbatim>\<open>sys.argv[1:]\<close>: the page file
  and, optionally, the output file. Arguments that begin with \<open>-\<close> are not modelled.
\<close>

fun parse_args :: "string list \<Rightarrow> (string \<times> string) option" where
  "parse_args [html_file] = Some (html_file, ''videos.json'')"
| "parse_args [html_file, output_file] = Some (html_file, output_file)"
| "parse_args _ = None"

text \<open>
  A run of the script on \<^verbatim>\<open>sys.argv\<close>: the exit status of the process, the lines
  printed and the files afterwards. The status is 1 after \<^verbatim>\<open>sys.exit(1)\<close> and after an
  uncaught exception, 2 when \<open>argparse\<close> rejects the arguments, and 0 when \<open>main\<close>
  returns, whose value the script does not use.
\<close>

definition script ::
  "(string \<Rightarrow> error + json) \<Rightarrow> (string \<Rightarrow> soup) \<Rightarrow> (json \<Rightarrow> string) \<Rightarrow> (json \<Rightarrow> string)
     \<Rightarrow> world \<Rightarrow> string list \<Rightarrow> nat \<times> message list \<times> world" where
  "script loads soup_of str_of dumps w argv =
     (if length argv < 2 then (1, [UsageMsg, ExampleMsg], w)
      else (case parse_args (tl argv) of
              None \<Rightarrow> (2, [ArgumentErrorMsg], w)
            | Some (html_file, output_file) \<Rightarrow>
                (case main loads soup_of str_of dumps w html_file output_file of
                   Inl e \<Rightarrow> (1, [ParsingMsg html_file, TracebackMsg e], w)
                 | Inr (printed, w') \<Rightarrow> (0, printed, w'))))"

section \<open>Set differ (diff_json.py)\<close>

text \<open>
  The elements of a Python \<open>set\<close> are hashable objects up to \<^verbatim>\<open>==\<close>. Among parsed JSON
  values the numbers are equal by value (\<^verbatim>\<open>True == 1 == 1.0\<close>), a string is equal to
  itself only, and a \<open>list\<close> or a \<open>dict\<close> is not hashable. A set is modelled as the set of
  the keys below.
\<close>

datatype pykey = KNone | KNum (un_KNum: rat) | KStr (un_KStr: string)

fun py_hash_key :: "json \<Rightarrow> error + pykey" where
  "py_hash_key JNull = Inr KNone"
| "py_hash_key (JBool b) = Inr (KNum (if b then 1 else 0))"
| "py_hash_key (JInt i) = Inr (KNum (of_int i))"
| "py_hash_key (JFloat r) = Inr (KNum r)"
| "py_hash_key (JStr s) = Inr (KStr s)"
| "py_hash_key (JArr xs) = Inl TypeError"
| "py_hash_key (JObj kvs) = Inl TypeError"

text \<open>
  \<^verbatim>\<open>sorted(list(s))\<close>: strings are ordered by their characters, numbers by value; a
  comparison of a string with a number, or of \<open>None\<close> with anything, raises \<open>TypeError\<close>,
  and sorting two or more elements compares each neighbour of the result.
\<close>

definition py_sorted :: "pykey set \<Rightarrow> error + pykey list" where
  "py_sorted s =
     (if \<forall>k\<in>s. is_KStr k then Inr (map KStr (sorted_list_of_set (un_KStr ` s)))
      else if \<forall>k\<in>s. is_KNum k then Inr (map KNum (sorted_list_of_set (un_KNum ` s)))
      else if s = {KNone} then Inr [KNone]
      else Inl TypeError)"

record report =
  only_in_file1 :: "pykey list"
  only_in_file2 :: "pykey list"
  common_urls :: "pykey list"
  file1_count :: nat
  file2_count :: nat
  common_count :: nat

text \<open>
  \<open>load_json_file\<close>: the value loaded, or \<open>None\<close> after \<open>FileNotFoundError\<close> or
  \<open>JSONDecodeError\<close>, the two classes it catches; the JSON text \<open>null\<close> loads as \<open>None\<close>
  too. An unreadable file raises, and so does any other exception of \<^verbatim>\<open>json.load\<close>.
\<close>

definition load_json_file ::
  "(string \<Rightarrow> error + json) \<Rightarrow> world \<Rightarrow> string \<Rightarrow> error + (json option \<times> message list)" where
  "load_json_file loads w filepath =
     (case files w filepath of
        Missing \<Rightarrow> Inr (None, [FileNotFoundMsg filepath])
      | Unreadable \<Rightarrow> Inl OSError
      | Content text \<Rightarrow>
          (case loads text of
             Inl e \<Rightarrow>
               if e = JSONDecodeError then Inr (None, [InvalidJsonMsg filepath]) else Inl e
           | Inr v \<Rightarrow> Inr (if v = JNull then None else Some v, [])))"

fun urls_loop :: "json list \<Rightarrow> pykey set \<Rightarrow> error + pykey set" where
  "urls_loop [] urls = Inr urls"
| "urls_loop (video # rest) urls =
     (case video of
        JObj kvs \<Rightarrow>
          (case map_of kvs ''url'' of
             Some u \<Rightarrow> bind_err (py_hash_key u) (\<lambda>k. urls_loop rest (insert k urls))
           | None \<Rightarrow> urls_loop rest urls)
      | _ \<Rightarrow> urls_loop rest urls)"

definition extract_urls :: "json \<Rightarrow> error + pykey set" where
  "extract_urls data =
     bind_err (py_in ''videos'' data) (\<lambda>has_videos.
       if has_videos then
         bind_err (py_item data ''videos'') (\<lambda>videos.
           case videos of JArr vs \<Rightarrow> urls_loop vs {} | _ \<Rightarrow> Inr {})
       else Inr {})"

definition find_url_differences ::
  "(string \<Rightarrow> error + json) \<Rightarrow> world \<Rightarrow> string \<Rightarrow> string
     \<Rightarrow> error + (report option \<times> message list)" where
  "find_url_differences loads w file1_path file2_path =
     bind_err (load_json_file loads w file1_path) (\<lambda>(data1, printed1).
     bind_err (load_json_file loads w file2_path) (\<lambda>(data2, printed2).
       case (data1, data2) of
         (Some d1, Some d2) \<Rightarrow>
           bind_err (extract_urls d1) (\<lambda>urls1.
           bind_err (extract_urls d2) (\<lambda>urls2.
           bind_err (py_sorted (urls1 - urls2)) (\<lambda>only1.
           bind_err (py_sorted (urls2 - urls1)) (\<lambda>only2.
           bind_err (py_sorted (urls1 \<inter> urls2)) (\<lambda>common.
             Inr (Some \<lparr>only_in_file1 = only1, only_in_file2 = only2, common_urls = common,
                        file1_count = card urls1, file2_count = card urls2,
                        common_count = card (urls1 \<inter> urls2)\<rparr>,
                  printed1 @ printed2))))))
       | _ \<Rightarrow> Inr (None, printed1 @ printed2)))"

text \<open>
  A collection as the spec's data model persists it:
  \<^verbatim>\<open>{"videos": [{"url": u1}, {"url": u2}, ...]}\<close> for the URLs in order.
\<close>

definition video_collection :: "string list \<Rightarrow> json" where
  "video_collection urls = JObj [(''videos'', JArr (map (\<lambda>u. JObj [(''url'', JStr u)]) urls))]"

section \<open>Reference functions of the specification\<close>

text \<open>
  Deduplication by a key that preserves first-seen order, in the spec's words: an element
  is kept, and every later element with the same key is dropped.
\<close>

fun first_seen_by :: "('a \<Rightarrow> 'b) \<Rightarrow> 'a list \<Rightarrow> 'a list" where
  "first_seen_by f [] = []"
| "first_seen_by f (x # xs) = x # filter (\<lambda>y. f y \<noteq> f x) (first_seen_by f xs)"

section \<open>The title of a tab\<close>

text \<open>
  The title that the loop over the tabs reads of a tab:
  \<^verbatim>\<open>tab.get('tabRenderer', {}).get('title')\<close>, or \<open>None\<close> when one of the two calls raises.
\<close>

definition tab_title :: "json \<Rightarrow> json option" where
  "tab_title tab =
     (case py_get tab ''tabRenderer'' (JObj []) of
        Inl e \<Rightarrow> None
      | Inr tab_renderer \<Rightarrow>
          (case py_get tab_renderer ''title'' JNull of Inl e \<Rightarrow> None | Inr title \<Rightarrow> Some title))"

section \<open>Concrete inputs\<close>

text \<open>
  A tab with the given title that lists the given items in one section, the blob that holds
  the given tabs under the second candidate path, and a grid item for a video identifier.
\<close>

definition ex_item :: "string \<Rightarrow> json" where
  "ex_item vid = JObj [(''gridVideoRenderer'', JObj [(''videoId'', JStr vid)])]"

definition ex_section :: "json list \<Rightarrow> json" where
  "ex_section items =
     JObj [(''itemSectionRenderer'',
            JObj [(''contents'', JArr [JObj [(''gridRenderer'', JObj [(''items'', JArr items)])]])])]"

definition ex_tab :: "string \<Rightarrow> json list \<Rightarrow> json" where
  "ex_tab title sections =
     JObj [(''tabRenderer'',
            JObj [(''title'', JStr title),
                  (''content'', JObj [(''sectionListRenderer'', JObj [(''contents'', JArr sections)])])])]"

definition ex_blob :: "json list \<Rightarrow> json" where
  "ex_blob tabs =
     JObj [(''contents'', JObj [(''twoColumnBrowseResultsRenderer'', JObj [(''tabs'', JArr tabs)])])]"

text \<open>
  A page with one script whose payload is not JSON and one without the marker, and with
  two anchors to the same video; a file system that holds it as \<open>page.html\<close>; library
  functions for which no text is JSON and every rendering is empty.
\<close>

definition ex_soup :: soup where
  "ex_soup = \<lparr>scripts = [Some ''var ytInitialData = {bad};'', Some ''var x = 1;''],
              anchors = [Some ''/watch?v=X'', Some ''/watch?v=X&list=PL1'']\<rparr>"

definition ex_world :: world where
  "ex_world = \<lparr>files = (\<lambda>p. if p = ''page.html'' then Content ''<html>'' else Missing),
               writable = (\<lambda>p. True)\<rparr>"

definition no_loads :: "string \<Rightarrow> error + json" where
  "no_loads text = Inl JSONDecodeError"

definition no_str :: "json \<Rightarrow> string" where
  "no_str v = []"

text \<open>
  Pages whose first script holds a payload that \<^verbatim>\<open>json.loads\<close> rejects and whose second
  script holds a blob with one video: in \<open>ex_deep_soup\<close> the first payload, named \<open>{deep}\<close>,
  stands for a text nested too deeply (\<open>RecursionError\<close>), in \<open>ex_retry_soup\<close> it is not
  JSON (\<open>JSONDecodeError\<close>). \<open>ex_page_loads\<close> gives what each payload loads as.
\<close>

definition ex_deep_soup :: soup where
  "ex_deep_soup =
     \<lparr>scripts = [Some ''var ytInitialData = {deep};'', Some ''var ytInitialData = {good};''],
      anchors = [Some ''/watch?v=X'']\<rparr>"

definition ex_retry_soup :: soup where
  "ex_retry_soup =
     \<lparr>scripts = [Some ''var ytInitialData = {bad};'', Some ''var ytInitialData = {good};''],
      anchors = [Some ''/watch?v=X'']\<rparr>"

definition ex_page_loads :: "string \<Rightarrow> error + json" where
  "ex_page_loads text =
     (if text = ''{deep}'' then Inl RecursionError
      else if text = ''{good}'' then Inr (ex_blob [ex_tab ''Videos'' [ex_section [ex_item ''a'']]])
      else Inl JSONDecodeError)"

text \<open>
  Two collection files, \<open>a.json\<close> with the URLs B, A, B and \<open>b.json\<close> with C, B, a file
  \<open>five.json\<close> whose JSON text is the number 5 and a file \<open>empty.json\<close> whose JSON text is
  the empty object. The texts of the two collections are named, not spelled out, and
  \<open>ex_loads\<close> gives the value that each text parses to.
\<close>

definition ex_loads :: "string \<Rightarrow> error + json" where
  "ex_loads text =
     (if text = ''first'' then Inr (video_collection [''B'', ''A'', ''B''])
      else if text = ''second'' then Inr (video_collection [''C'', ''B''])
      else if text = ''5'' then Inr (JInt 5)
      else if text = ''{}'' then Inr (JObj [])
      else Inl JSONDecodeError)"

definition ex_files :: world where
  "ex_files =
     \<lparr>files = (\<lambda>p. if p = ''a.json'' then Content ''first''
                     else if p = ''b.json'' then Content ''second''
                     else if p = ''five.json'' then Content ''5''
                     else if p = ''empty.json'' then Content ''{}''
                     else Missing),
      writable = (\<lambda>p. True)\<rparr>"

section \<open>The URL normalizer: what the pattern captures\<close>

lemma match_here_group: "match_here s = Some v \<Longrightarrow> v \<noteq> [] \<and> CHR ''&'' \<notin> set v"
  by (auto simp: match_here_def split: list.splits if_splits dest: set_takeWhileD)

lemma video_id_group: "video_id_from_url s = Some v \<Longrightarrow> v \<noteq> [] \<and> CHR ''&'' \<notin> set v"
  by (induction s) (auto split: option.splits dest: match_here_group)

lemma match_here_extend:
  assumes "4 \<le> length xs" and "match_here xs = None"
  shows "match_here (xs @ s) = None"
proof -
  from assms(1) obtain a b c d r where xs: "xs = a # b # c # d # r"
    by (cases xs; cases "tl xs"; cases "tl (tl xs)"; cases "tl (tl (tl xs))") auto
  from assms(2) show ?thesis
    unfolding xs by (auto simp: match_here_def split: if_splits)
qed

lemma video_id_skip_prefix:
  "video_id_from_url (pre @ c # ''v='') = None \<Longrightarrow>
   video_id_from_url (pre @ c # ''v='' @ s) = video_id_from_url (c # ''v='' @ s)"
proof (induction pre)
  case Nil
  then show ?case by simp
next
  case (Cons p ps)
  from Cons.prems have m: "match_here (p # ps @ c # ''v='') = None"
    and rest: "video_id_from_url (ps @ c # ''v='') = None"
    by (auto split: option.splits)
  have "match_here ((p # ps @ c # ''v='') @ s) = None"
    by (rule match_here_extend[OF _ m]) simp
  then have "video_id_from_url ((p # ps) @ c # ''v='' @ s) =
             video_id_from_url (ps @ c # ''v='' @ s)"
    by simp
  with Cons.IH[OF rest] show ?case by simp
qed

lemma match_here_param:
  assumes "c = CHR ''?'' \<or> c = CHR ''&''" and "vid \<noteq> []" and "CHR ''&'' \<notin> set vid"
    and "rest = [] \<or> hd rest = CHR ''&''"
  shows "match_here (c # ''v='' @ vid @ rest) = Some vid"
proof -
  have tw: "takeWhile (\<lambda>x. x \<noteq> CHR ''&'') (vid @ rest) = vid"
  proof (cases rest)
    case Nil
    then show ?thesis using assms(3) by auto
  next
    case (Cons r rs)
    with assms(4) have "r = CHR ''&''" by simp
    with Cons show ?thesis using assms(3) by (subst takeWhile_append2) auto
  qed
  show ?thesis using assms(1,2) by (simp add: match_here_def tw)
qed

lemma video_id_canonical:
  assumes "v \<noteq> []" and "CHR ''&'' \<notin> set v"
  shows "video_id_from_url (watch_prefix @ v) = Some v"
proof -
  have "video_id_from_url (''https://www.youtube.com/watch'' @ CHR ''?'' # ''v='' @ v @ []) =
        video_id_from_url (CHR ''?'' # ''v='' @ v @ [])"
    by (rule video_id_skip_prefix) (simp add: match_here_def)
  also have "\<dots> = Some v"
    using match_here_param[of "CHR ''?''" v "[]"] assms by simp
  finally show ?thesis by (simp add: watch_prefix_def)
qed

lemma match_here_split_first:
  assumes "match_here s = None"
  shows "match_here (split_first (CHR ''&'') s) = None"
proof (cases "length s < 4")
  case True
  with assms show ?thesis
    by (cases s; cases "tl s"; cases "tl (tl s)"; cases "tl (tl (tl s))")
       (auto simp: match_here_def split_first_def split: if_splits)
next
  case False
  then obtain a b c d r where s: "s = a # b # c # d # r"
    by (cases s; cases "tl s"; cases "tl (tl s)"; cases "tl (tl (tl s))") auto
  from assms show ?thesis
    unfolding s by (auto simp: match_here_def split_first_def split: if_splits)
qed

lemma video_id_split_first:
  "video_id_from_url s = None \<Longrightarrow> video_id_from_url (split_first (CHR ''&'') s) = None"
proof (induction s)
  case Nil
  then show ?case by (simp add: split_first_def)
next
  case (Cons c cs)
  from Cons.prems have m: "match_here (c # cs) = None" and r: "video_id_from_url cs = None"
    by (auto split: option.splits)
  show ?case
  proof (cases "c = CHR ''&''")
    case True
    then show ?thesis by (simp add: split_first_def)
  next
    case False
    then have sf: "split_first (CHR ''&'') (c # cs) = c # split_first (CHR ''&'') cs"
      by (simp add: split_first_def)
    from match_here_split_first[OF m] have "match_here (c # split_first (CHR ''&'') cs) = None"
      by (simp only: sf)
    with Cons.IH[OF r] show ?thesis by (simp add: sf)
  qed
qed

text \<open>
  C3. The normalizer is idempotent: for every string \<open>x\<close>, normalizing the result of
  \<open>clean_youtube_url x\<close> again gives the same string.
\<close>

theorem clean_youtube_url_idempotent:
  "clean_youtube_url (clean_youtube_url x) = clean_youtube_url x"
proof (cases "x = []")
  case True
  then show ?thesis by (simp add: clean_youtube_url_def)
next
  case False
  show ?thesis
  proof (cases "video_id_from_url x")
    case (Some v)
    from video_id_group[OF Some] have v: "v \<noteq> []" "CHR ''&'' \<notin> set v" by auto
    have c: "clean_youtube_url x = watch_prefix @ v"
      using False Some v by (simp add: clean_youtube_url_def)
    have "clean_youtube_url (watch_prefix @ v) = watch_prefix @ v"
      using video_id_canonical[OF v] v by (simp add: clean_youtube_url_def)
    with c show ?thesis by simp
  next
    case None
    show ?thesis
    proof (cases "CHR ''&'' \<in> set x")
      case True
      have c: "clean_youtube_url x = split_first (CHR ''&'') x"
        using False None True by (simp add: clean_youtube_url_def)
      have n: "CHR ''&'' \<notin> set (split_first (CHR ''&'') x)"
        by (auto simp: split_first_def dest: set_takeWhileD)
      have "clean_youtube_url (split_first (CHR ''&'') x) = split_first (CHR ''&'') x"
        using video_id_split_first[OF None] n by (simp add: clean_youtube_url_def)
      with c show ?thesis by simp
    next
      case F: False
      have "clean_youtube_url x = x"
        using False None F by (simp add: clean_youtube_url_def)
      then show ?thesis by simp
    qed
  qed
qed

theorem clean_youtube_url_idempotent_witness:
  "clean_youtube_url (clean_youtube_url ''/watch?list=PL1&v=X&t=1'') =
   clean_youtube_url ''/watch?list=PL1&v=X&t=1''"
  by (rule clean_youtube_url_idempotent)

lemma video_id_first_param:
  assumes "c = CHR ''?'' \<or> c = CHR ''&''" and "vid \<noteq> []" and "CHR ''&'' \<notin> set vid"
    and "rest = [] \<or> hd rest = CHR ''&''"
    and "video_id_from_url (pre @ c # ''v='') = None"
  shows "video_id_from_url (pre @ c # ''v='' @ vid @ rest) = Some vid"
proof -
  have "video_id_from_url (pre @ c # ''v='' @ vid @ rest) =
        video_id_from_url (c # ''v='' @ vid @ rest)"
    by (rule video_id_skip_prefix[OF assms(5)])
  also have "\<dots> = Some vid"
    using match_here_param[OF assms(1-4)] by simp
  finally show ?thesis .
qed




text \<open>
  A fragment that follows the value directly, with no \<open>&\<close> between, is part of what the
  pattern captures. The result then is not a URL with only the video ID, which is what the
  docstring of \<open>clean_youtube_url\<close> says the function returns.
\<close>

lemma clean_youtube_url_fragment_after_value:
  "clean_youtube_url ''https://www.youtube.com/watch?v=abc#t=5'' =
     ''https://www.youtube.com/watch?v=abc#t=5''"
  by (simp add: clean_youtube_url_def match_here_def watch_prefix_def)

section \<open>The HTML fallback scanner: deduplication\<close>

lemma unique_loop_acc: "unique_loop vs seen acc = acc @ unique_loop vs seen []"
proof (induction vs arbitrary: seen acc)
  case Nil
  show ?case by simp
next
  case (Cons v vs)
  show ?case
  proof (cases "video_url v \<in> seen")
    case True
    then show ?thesis using Cons.IH[of seen acc] by simp
  next
    case False
    have "unique_loop (v # vs) seen acc = unique_loop vs (insert (video_url v) seen) (acc @ [v])"
      using False by simp
    also have "\<dots> = (acc @ [v]) @ unique_loop vs (insert (video_url v) seen) []"
      by (rule Cons.IH)
    also have "\<dots> = acc @ unique_loop vs (insert (video_url v) seen) ([] @ [v])"
      using Cons.IH[of "insert (video_url v) seen" "[] @ [v]"] by simp
    also have "\<dots> = acc @ unique_loop (v # vs) seen []"
      using False by simp
    finally show ?thesis .
  qed
qed

lemma unique_loop_seen:
  "unique_loop vs (s \<union> t) [] = filter (\<lambda>v. video_url v \<notin> t) (unique_loop vs s [])"
proof (induction vs arbitrary: s)
  case Nil
  show ?case by simp
next
  case (Cons v vs)
  let ?u = "video_url v"
  have step: "unique_loop vs U [v] = v # unique_loop vs U []" for U
    using unique_loop_acc[of vs U "[v]"] by simp
  show ?case
  proof (cases "?u \<in> s")
    case True
    then show ?thesis using Cons.IH[of s] by simp
  next
    case False
    have r: "unique_loop (v # vs) s [] = v # unique_loop vs (insert ?u s) []"
      using False by (simp add: step)
    show ?thesis
    proof (cases "?u \<in> t")
      case True
      then have e: "insert ?u s \<union> t = s \<union> t" by auto
      have "unique_loop (v # vs) (s \<union> t) [] = unique_loop vs (s \<union> t) []"
        using True by simp
      also have "\<dots> = filter (\<lambda>v. video_url v \<notin> t) (unique_loop vs (insert ?u s) [])"
        using Cons.IH[of "insert ?u s"] by (simp only: e)
      also have "\<dots> = filter (\<lambda>v. video_url v \<notin> t) (unique_loop (v # vs) s [])"
        using True by (subst r) simp
      finally show ?thesis .
    next
      case F: False
      have e: "insert ?u (s \<union> t) = insert ?u s \<union> t" by auto
      have "unique_loop (v # vs) (s \<union> t) [] = v # unique_loop vs (insert ?u (s \<union> t)) []"
        using F False by (simp add: step)
      also have "\<dots> = v # filter (\<lambda>v. video_url v \<notin> t) (unique_loop vs (insert ?u s) [])"
        using Cons.IH[of "insert ?u s"] by (simp only: e)
      also have "\<dots> = filter (\<lambda>v. video_url v \<notin> t) (unique_loop (v # vs) s [])"
        using F by (subst r) simp
      finally show ?thesis .
    qed
  qed
qed

lemma unique_loop_first_seen: "unique_loop vs {} [] = first_seen_by video_url vs"
proof (induction vs)
  case Nil
  show ?case by simp
next
  case (Cons v vs)
  have "unique_loop (v # vs) {} [] = unique_loop vs {video_url v} [v]" by simp
  also have "\<dots> = v # unique_loop vs ({} \<union> {video_url v}) []"
    using unique_loop_acc[of vs "{video_url v}" "[v]"] by simp
  also have "\<dots> = v # filter (\<lambda>y. video_url y \<notin> {video_url v}) (unique_loop vs {} [])"
    by (simp only: unique_loop_seen)
  finally show ?case using Cons.IH by simp
qed

lemma distinct_first_seen_by: "distinct (map f (first_seen_by f xs))"
proof (induction xs)
  case Nil
  show ?case by simp
next
  case (Cons x xs)
  have "distinct (map f (filter (\<lambda>y. f y \<noteq> f x) (first_seen_by f xs)))"
    using Cons.IH by (rule distinct_map_filter)
  then show ?case by auto
qed

lemma py_in_str_prefix: "sub \<noteq> [] \<Longrightarrow> py_in_str sub (sub @ rest)"
  by (cases sub) (auto simp: py_in_str_def str_find_def)

lemma links_loop_step:
  assumes "take 1 href = ''/''" and "clean_youtube_url (''https://www.youtube.com'' @ href) = u"
    and "video_id_from_url u = Some g" and "g \<noteq> []" and "u \<noteq> []"
  shows "links_loop (href # rest) videos = links_loop rest (videos @ [Video u])"
  using assms by (simp add: Let_def)

lemma links_loop_two:
  assumes "x \<noteq> []" and "CHR ''&'' \<notin> set x"
  shows "links_loop [''/watch?v='' @ x, ''/watch?v='' @ x @ ''&list=PL1''] [] =
         [Video (watch_prefix @ x), Video (watch_prefix @ x)]"
proof -
  have id1: "video_id_from_url (watch_prefix @ x) = Some x"
    by (rule video_id_canonical[OF assms])
  have "video_id_from_url (''https://www.youtube.com/watch'' @ CHR ''?'' # ''v='' @ x @ ''&list=PL1'') = Some x"
    by (rule video_id_first_param) (use assms in \<open>simp_all add: match_here_def\<close>)
  then have id2: "video_id_from_url (watch_prefix @ x @ ''&list=PL1'') = Some x"
    by (simp add: watch_prefix_def)
  have w: "watch_prefix @ x \<noteq> []" by (simp add: watch_prefix_def)
  have c1: "clean_youtube_url (''https://www.youtube.com'' @ ''/watch?v='' @ x) = watch_prefix @ x"
    using id1 assms by (simp add: clean_youtube_url_def watch_prefix_def)
  have c2: "clean_youtube_url (''https://www.youtube.com'' @ ''/watch?v='' @ x @ ''&list=PL1'') = watch_prefix @ x"
    using id2 assms by (simp add: clean_youtube_url_def watch_prefix_def)
  have s1: "links_loop [''/watch?v='' @ x, ''/watch?v='' @ x @ ''&list=PL1''] [] =
        links_loop [''/watch?v='' @ x @ ''&list=PL1''] ([] @ [Video (watch_prefix @ x)])"
    by (rule links_loop_step[OF _ c1 id1 assms(1) w]) simp
  have s2: "links_loop [''/watch?v='' @ x @ ''&list=PL1''] [Video (watch_prefix @ x)] =
        links_loop [] ([Video (watch_prefix @ x)] @ [Video (watch_prefix @ x)])"
    by (rule links_loop_step[OF _ c2 id1 assms(1) w]) simp
  show ?thesis using s1 s2 by simp
qed

section \<open>The embedded-data extractor and the fallback\<close>

lemma scripts_loop_no_parse:
  assumes "\<forall>sc j. Some sc \<in> set ss \<and> initial_data_json sc = Some j \<longrightarrow> loads j = Inl JSONDecodeError"
  shows "scripts_loop loads str_of ss out = Inr (None, out)"
  using assms
proof (induction ss)
  case Nil
  show ?case by simp
next
  case (Cons s ss)
  from Cons.prems
  have "\<forall>sc j. Some sc \<in> set ss \<and> initial_data_json sc = Some j \<longrightarrow> loads j = Inl JSONDecodeError"
    by auto
  then have ih: "scripts_loop loads str_of ss out = Inr (None, out)" by (rule Cons.IH)
  show ?case
  proof (cases s)
    case None
    with ih show ?thesis by simp
  next
    case (Some sc)
    with Cons.prems have "\<forall>j. initial_data_json sc = Some j \<longrightarrow> loads j = Inl JSONDecodeError" by auto
    with ih Some show ?thesis by (auto split: option.splits)
  qed
qed

lemma initial_data_json_no_marker:
  "str_find sc start_marker 0 = None \<Longrightarrow> initial_data_json sc = None"
  by (simp add: initial_data_json_def)

text \<open>
  C6. The fallback scanner deduplicates by normalized URL and preserves first-seen order:
  no two records of its result share a URL, the result is the list of candidate records
  with every later record of an already seen URL dropped, and a page whose two anchors are
  \<open>/watch?v=X\<close> and \<open>/watch?v=X&list=PL1\<close> gives exactly one record, also through the
  extractor when no script holds the marker.
\<close>

theorem extract_videos_from_html_dedup:
  "distinct (map video_url (extract_videos_from_html sp))
   \<and> extract_videos_from_html sp = first_seen_by video_url (links_loop (video_links sp) [])
   \<and> (x \<noteq> [] \<and> CHR ''&'' \<notin> set x
        \<and> anchors sp = [Some (''/watch?v='' @ x), Some (''/watch?v='' @ x @ ''&list=PL1'')]
        \<longrightarrow> extract_videos_from_html sp = [Video (watch_prefix @ x)]
          \<and> ((\<forall>sc. Some sc \<in> set (scripts sp) \<longrightarrow> str_find sc start_marker 0 = None)
                 \<and> soup_of html = sp
               \<longrightarrow> parse_html_content loads soup_of str_of html =
                     Inr ([Video (watch_prefix @ x)], [JsonExtractionFailedMsg])))"
proof -
  have eq: "extract_videos_from_html sp = first_seen_by video_url (links_loop (video_links sp) [])"
    by (simp add: extract_videos_from_html_def unique_loop_first_seen)
  have d: "distinct (map video_url (extract_videos_from_html sp))"
    unfolding eq by (rule distinct_first_seen_by)
  have sc: "extract_videos_from_html sp = [Video (watch_prefix @ x)]"
    if x: "x \<noteq> []" "CHR ''&'' \<notin> set x"
      and a: "anchors sp = [Some (''/watch?v='' @ x), Some (''/watch?v='' @ x @ ''&list=PL1'')]"
  proof -
    have p1: "py_in_str ''/watch?v='' (''/watch?v='' @ x)"
      by (rule py_in_str_prefix) simp
    have p2: "py_in_str ''/watch?v='' (''/watch?v='' @ x @ ''&list=PL1'')"
      by (rule py_in_str_prefix) simp
    have "video_links sp = [''/watch?v='' @ x, ''/watch?v='' @ x @ ''&list=PL1'']"
      using p1 p2 by (simp add: video_links_def a del: append.simps)
    then show ?thesis
      unfolding eq using links_loop_two[OF x] by simp
  qed
  have pg: "parse_html_content loads soup_of str_of html =
              Inr ([Video (watch_prefix @ x)], [JsonExtractionFailedMsg])"
    if x: "x \<noteq> []" "CHR ''&'' \<notin> set x"
      and a: "anchors sp = [Some (''/watch?v='' @ x), Some (''/watch?v='' @ x @ ''&list=PL1'')]"
      and n: "\<forall>sc. Some sc \<in> set (scripts sp) \<longrightarrow> str_find sc start_marker 0 = None"
      and s: "soup_of html = sp"
  proof -
    have "scripts_loop loads str_of (scripts sp) [] = Inr (None, [])"
      by (rule scripts_loop_no_parse) (use n in \<open>auto simp: initial_data_json_no_marker\<close>)
    then show ?thesis
      using sc[OF x a] by (simp add: parse_html_content_def s)
  qed
  from eq d sc pg show ?thesis by blast
qed

theorem extract_videos_from_html_dedup_witness:
  "extract_videos_from_html ex_soup = [Video ''https://www.youtube.com/watch?v=X'']
   \<and> parse_html_content no_loads (\<lambda>text. ex_soup\<lparr>scripts := [Some ''var x = 1;'']\<rparr>) no_str
         ''<html>'' =
       Inr ([Video ''https://www.youtube.com/watch?v=X''], [JsonExtractionFailedMsg])"
proof -
  let ?sp = "ex_soup\<lparr>scripts := [Some ''var x = 1;'']\<rparr>"
  have x: "''X'' \<noteq> [] \<and> CHR ''&'' \<notin> set ''X''" by simp
  have a1: "anchors ex_soup = [Some (''/watch?v='' @ ''X''), Some (''/watch?v='' @ ''X'' @ ''&list=PL1'')]"
    by (simp add: ex_soup_def)
  have a2: "anchors ?sp = [Some (''/watch?v='' @ ''X''), Some (''/watch?v='' @ ''X'' @ ''&list=PL1'')]"
    by (simp add: ex_soup_def)
  have n: "\<forall>sc. Some sc \<in> set (scripts ?sp) \<longrightarrow> str_find sc start_marker 0 = None"
    by (simp add: str_find_def start_marker_def)
  from extract_videos_from_html_dedup[of ex_soup "''X''"] x a1
  have r1: "extract_videos_from_html ex_soup = [Video (watch_prefix @ ''X'')]"
    by blast
  from extract_videos_from_html_dedup[of ?sp "''X''" "\<lambda>text. ?sp" "''<html>''" no_loads no_str] x a2 n
  have r2: "parse_html_content no_loads (\<lambda>text. ?sp) no_str ''<html>'' =
              Inr ([Video (watch_prefix @ ''X'')], [JsonExtractionFailedMsg])"
    by blast
  from r1 r2 show ?thesis by (simp add: watch_prefix_def)
qed

section \<open>The embedded-data extractor: a payload that fails to parse\<close>

text \<open>
  The start marker holds the text \<open>ytInitialData\<close>, so a script from which a payload is
  cut out passes the test at the head of the loop body.
\<close>

lemma find_at_0_infix: "find_at_0 sub (pre @ sub @ post) \<noteq> None"
proof (induction pre)
  case Nil
  have t: "take (length sub) (sub @ post) = sub" by simp
  show ?case
  proof (cases "sub @ post")
    case Nil
    then show ?thesis by simp
  next
    case (Cons a as)
    with t have "take (length sub) (a # as) = sub" by simp
    with Cons show ?thesis by simp
  qed
next
  case (Cons p ps)
  then show ?case by auto
qed

lemma find_at_0_split:
  "find_at_0 sub s = Some i \<Longrightarrow> \<exists>pre post. s = pre @ sub @ post \<and> length pre = i"
proof (induction s arbitrary: i)
  case Nil
  then show ?case by (auto split: if_splits)
next
  case (Cons c cs)
  show ?case
  proof (cases "take (length sub) (c # cs) = sub")
    case True
    with Cons.prems have "i = 0" by simp
    moreover have "c # cs = [] @ sub @ drop (length sub) (c # cs)"
      using True append_take_drop_id[of "length sub" "c # cs"] by simp
    ultimately show ?thesis by blast
  next
    case False
    with Cons.prems obtain i' where i': "find_at_0 sub cs = Some i'" "i = Suc i'"
      by auto
    from Cons.IH[OF i'(1)] obtain pre post where "cs = pre @ sub @ post" "length pre = i'"
      by blast
    with i'(2) have "c # cs = (c # pre) @ sub @ post \<and> length (c # pre) = i" by simp
    then show ?thesis by blast
  qed
qed

lemma initial_data_json_guard:
  assumes "initial_data_json sc = Some j"
  shows "sc \<noteq> [] \<and> py_in_str ''ytInitialData'' sc"
proof -
  from assms obtain i where "find_at_0 start_marker sc = Some i"
    by (auto simp: initial_data_json_def str_find_def split: option.splits)
  from find_at_0_split[OF this] obtain pre post where sc: "sc = pre @ start_marker @ post"
    by blast
  have "sc = (pre @ ''var '') @ ''ytInitialData'' @ ('' = '' @ post)"
    by (simp add: sc start_marker_def)
  then have "find_at_0 ''ytInitialData'' sc \<noteq> None"
    using find_at_0_infix[of "''ytInitialData''" "pre @ ''var ''" "'' = '' @ post"] by simp
  then have "py_in_str ''ytInitialData'' sc"
    by (simp add: py_in_str_def str_find_def)
  moreover have "sc \<noteq> []" by (simp add: sc start_marker_def)
  ultimately show ?thesis by simp
qed

text \<open>
  What the loop does with one segment whose payload was cut out: after \<open>JSONDecodeError\<close>
  it goes on with the remaining segments; a payload that parses to a blob with videos ends
  the loop with them; any other exception of \<open>json.loads\<close> ends the loop with that
  exception.
\<close>

lemma scripts_loop_decode_error:
  assumes "initial_data_json sc = Some j" and "loads j = Inl JSONDecodeError"
  shows "scripts_loop loads str_of (Some sc # rest) out = scripts_loop loads str_of rest out"
  using assms by simp

lemma scripts_loop_parsed:
  assumes "initial_data_json sc = Some j" and "loads j = Inr data"
    and "extract_videos_from_json str_of data = Inr (videos, printed)" and "videos \<noteq> []"
  shows "scripts_loop loads str_of (Some sc # rest) out = Inr (Some videos, out @ printed)"
  using assms initial_data_json_guard[OF assms(1)] by simp

lemma scripts_loop_raises:
  assumes "initial_data_json sc = Some j" and "loads j = Inl e" and "e \<noteq> JSONDecodeError"
  shows "scripts_loop loads str_of (Some sc # rest) out = Inl e"
  using assms initial_data_json_guard[OF assms(1)] by simp

lemma scripts_loop_skip:
  assumes "\<forall>sc j. Some sc \<in> set pre \<and> initial_data_json sc = Some j \<longrightarrow> loads j = Inl JSONDecodeError"
  shows "scripts_loop loads str_of (pre @ rest) out = scripts_loop loads str_of rest out"
  using assms
proof (induction pre)
  case Nil
  show ?case by simp
next
  case (Cons s pre)
  from Cons.prems
  have "\<forall>sc j. Some sc \<in> set pre \<and> initial_data_json sc = Some j \<longrightarrow> loads j = Inl JSONDecodeError"
    by auto
  then have ih: "scripts_loop loads str_of (pre @ rest) out = scripts_loop loads str_of rest out"
    by (rule Cons.IH)
  show ?case
  proof (cases s)
    case None
    with ih show ?thesis by simp
  next
    case (Some sc)
    with Cons.prems have "\<forall>j. initial_data_json sc = Some j \<longrightarrow> loads j = Inl JSONDecodeError"
      by auto
    with ih Some show ?thesis by (auto split: option.splits)
  qed
qed

text \<open>
  So a segment that parses is used after segments that failed with \<open>JSONDecodeError\<close>, and
  when every payload fails so, the extractor returns the fallback scan.
\<close>

lemma parse_decode_errors_then_videos:
  assumes "files w path = Content html"
    and "scripts (soup_of html) = pre @ Some sc # rest"
    and "\<forall>c j. Some c \<in> set pre \<and> initial_data_json c = Some j \<longrightarrow> loads j = Inl JSONDecodeError"
    and "initial_data_json sc = Some j" and "loads j = Inr data"
    and "extract_videos_from_json str_of data = Inr (videos, printed)" and "videos \<noteq> []"
  shows "parse_youtube_html loads soup_of str_of w path = Inr (videos, printed)"
proof -
  have "scripts_loop loads str_of (pre @ Some sc # rest) [] = Inr (Some videos, [] @ printed)"
    unfolding scripts_loop_skip[OF assms(3)] by (rule scripts_loop_parsed[where loads = loads and j = j and data = data, OF assms(4-7)])
  then show ?thesis
    by (simp add: parse_youtube_html_def parse_html_content_def assms(1,2))
qed

lemma parse_decode_errors_fallback:
  assumes "files w path = Content html"
    and "\<forall>sc j. Some sc \<in> set (scripts (soup_of html)) \<and> initial_data_json sc = Some j
                     \<longrightarrow> loads j = Inl JSONDecodeError"
  shows "parse_youtube_html loads soup_of str_of w path =
            Inr (extract_videos_from_html (soup_of html), [JsonExtractionFailedMsg])"
proof -
  have "scripts_loop loads str_of (scripts (soup_of html)) [] = Inr (None, [])"
    by (rule scripts_loop_no_parse[OF assms(2)])
  then show ?thesis
    by (simp add: parse_youtube_html_def parse_html_content_def assms(1))
qed

text \<open>
  C8. The loop survives a payload that fails to parse only when the failure is
  \<open>JSONDecodeError\<close>. When \<^verbatim>\<open>json.loads\<close> raises another exception on the text cut out of a
  segment (after segments that were skipped or failed with \<open>JSONDecodeError\<close>), the
  remaining segments are not scanned and the HTML fallback is not run: the exception leaves
  \<open>parse_youtube_html\<close>, and the script ends with a traceback and exit status 1.
\<close>

theorem parse_youtube_html_loads_exception:
  assumes "files w html_file = Content html"
    and "scripts (soup_of html) = pre @ Some sc # rest"
    and "\<forall>c j. Some c \<in> set pre \<and> initial_data_json c = Some j \<longrightarrow> loads j = Inl JSONDecodeError"
    and "initial_data_json sc = Some j" and "loads j = Inl e" and "e \<noteq> JSONDecodeError"
  shows "parse_youtube_html loads soup_of str_of w html_file = Inl e
         \<and> script loads soup_of str_of dumps w [prog, html_file] =
             (1, [ParsingMsg html_file, TracebackMsg e], w)"
proof -
  have "scripts_loop loads str_of (pre @ Some sc # rest) [] = Inl e"
    unfolding scripts_loop_skip[OF assms(3)] by (rule scripts_loop_raises[where loads = loads and j = j, OF assms(4-6)])
  then have p: "parse_youtube_html loads soup_of str_of w html_file = Inl e"
    by (simp add: parse_youtube_html_def parse_html_content_def assms(1,2))
  then show ?thesis by (simp add: script_def main_def)
qed

theorem parse_youtube_html_loads_exception_witness:
  "parse_youtube_html ex_page_loads (\<lambda>text. ex_deep_soup) no_str ex_world ''page.html'' =
     Inl RecursionError
   \<and> script ex_page_loads (\<lambda>text. ex_deep_soup) no_str no_str ex_world
       [''html_youtube_parser.py'', ''page.html''] =
     (1, [ParsingMsg ''page.html'', TracebackMsg RecursionError], ex_world)"
proof -
  have f: "files ex_world ''page.html'' = Content ''<html>''"
    by (simp add: ex_world_def)
  have s: "scripts ((\<lambda>text. ex_deep_soup) ''<html>'') =
             [] @ Some ''var ytInitialData = {deep};'' # [Some ''var ytInitialData = {good};'']"
    by (simp add: ex_deep_soup_def)
  have n: "\<forall>c j. Some c \<in> set [] \<and> initial_data_json c = Some j
             \<longrightarrow> ex_page_loads j = Inl JSONDecodeError"
    by simp
  have j: "initial_data_json ''var ytInitialData = {deep};'' = Some ''{deep}''"
    by (simp add: initial_data_json_def str_find_def start_marker_def end_marker_def py_slice_def)
  have l: "ex_page_loads ''{deep}'' = Inl RecursionError"
    by (simp add: ex_page_loads_def)
  have e: "RecursionError \<noteq> JSONDecodeError" by simp
  from parse_youtube_html_loads_exception[where loads = ex_page_loads and j = "''{deep}''"
      and soup_of = "\<lambda>text. ex_deep_soup" and pre = "[]", OF f s n j l e]
  show ?thesis by simp
qed

text \<open>
  The two pages side by side: with a first payload that is not JSON the video of the second
  script is returned, with a first payload nested too deeply nothing is.
\<close>

lemma parse_retry_example:
  "parse_youtube_html ex_page_loads (\<lambda>text. ex_retry_soup) no_str ex_world ''page.html'' =
     Inr ([Video ''https://www.youtube.com/watch?v=a''], [])"
  by code_simp

lemma parse_deep_example:
  "parse_youtube_html ex_page_loads (\<lambda>text. ex_deep_soup) no_str ex_world ''page.html'' =
     Inl RecursionError"
  by code_simp

section \<open>The structured-data walker\<close>

lemma tabs_loop_skip:
  assumes "\<forall>t\<in>set pre. \<exists>title. tab_title t = Some title \<and> title \<noteq> JStr ''Videos''"
  shows "tabs_loop str_of (pre @ rest) st = tabs_loop str_of rest st"
  using assms
proof (induction pre)
  case Nil
  show ?case by simp
next
  case (Cons t pre)
  from Cons.prems obtain title where t: "tab_title t = Some title" "title \<noteq> JStr ''Videos''"
    by auto
  from Cons.prems have "\<forall>t\<in>set pre. \<exists>title. tab_title t = Some title \<and> title \<noteq> JStr ''Videos''"
    by simp
  then have ih: "tabs_loop str_of (pre @ rest) st = tabs_loop str_of rest st"
    by (rule Cons.IH)
  from t have "tabs_loop str_of (t # pre @ rest) st = tabs_loop str_of (pre @ rest) st"
    by (auto simp: tab_title_def split: sum.splits)
  with ih show ?case by simp
qed

lemma tabs_loop_select:
  assumes "tab_title tab = Some (JStr ''Videos'')"
    and "py_get tab ''tabRenderer'' (JObj []) = Inr tab_renderer"
  shows "tabs_loop str_of (tab # post) st = videos_tab str_of tab_renderer st"
  using assms by (auto simp: tab_title_def split: sum.splits)

lemma json_walk_tabs:
  assumes "find_tabs (JObj kvs) possible_paths = Inr (Some (JArr tabs))"
  shows "json_walk str_of (JObj kvs) = tabs_loop str_of tabs ([], [])"
  using assms by (cases tabs) (simp_all add: json_walk_def)

text \<open>
  C9. Among the tabs that a candidate path resolves to, the walker runs the body for the
  first tab whose title is the string \<open>Videos\<close>, compared exactly: tabs before it with any
  other title (such as \<open>videos\<close>) are passed over, tabs after it are not looked at, and
  when no tab has that title the result is empty.
\<close>

theorem videos_tab_selected:
  assumes "find_tabs (JObj kvs) possible_paths = Inr (Some (JArr tabs))"
  shows "(tabs = pre @ tab # post
          \<and> (\<forall>t\<in>set pre. \<exists>title. tab_title t = Some title \<and> title \<noteq> JStr ''Videos'')
          \<and> tab_title tab = Some (JStr ''Videos'')
          \<and> py_get tab ''tabRenderer'' (JObj []) = Inr tab_renderer
          \<longrightarrow> json_walk str_of (JObj kvs) = videos_tab str_of tab_renderer ([], []))
       \<and> ((\<forall>t\<in>set tabs. \<exists>title. tab_title t = Some title \<and> title \<noteq> JStr ''Videos'')
          \<longrightarrow> extract_videos_from_json str_of (JObj kvs) = Inr ([], []))"
proof -
  note w = json_walk_tabs[OF assms]
  have a: "json_walk str_of (JObj kvs) = videos_tab str_of tab_renderer ([], [])"
    if "tabs = pre @ tab # post"
      and "\<forall>t\<in>set pre. \<exists>title. tab_title t = Some title \<and> title \<noteq> JStr ''Videos''"
      and "tab_title tab = Some (JStr ''Videos'')"
      and "py_get tab ''tabRenderer'' (JObj []) = Inr tab_renderer"
    using that w tabs_loop_skip[where pre = pre and rest = "tab # post" and str_of = str_of and st = "([], [])"]
      tabs_loop_select[where tab = tab and tab_renderer = tab_renderer and str_of = str_of
        and post = post and st = "([], [])"]
    by simp
  have b: "extract_videos_from_json str_of (JObj kvs) = Inr ([], [])"
    if "\<forall>t\<in>set tabs. \<exists>title. tab_title t = Some title \<and> title \<noteq> JStr ''Videos''"
    using that w tabs_loop_skip[where pre = tabs and rest = "[]" and str_of = str_of and st = "([], [])"]
    by (simp add: extract_videos_from_json_def)
  from a b show ?thesis by blast
qed

text \<open>
  C5 (as amended). For every parsed value \<open>extract_videos_from_json\<close> returns a list and
  never raises: an exception of the walk is caught at the top level, and the result is the
  list of records appended before it. The result is empty for a value that is not a
  mapping and for a mapping in which no candidate path resolves (such as the empty one).
\<close>

theorem extract_videos_from_json_never_raises:
  "(\<exists>videos out. extract_videos_from_json str_of data = Inr (videos, out)
       \<and> videos = fst (snd (json_walk str_of data)))
   \<and> ((\<forall>kvs. data \<noteq> JObj kvs)
        \<longrightarrow> extract_videos_from_json str_of data = Inr ([], [ExtractJsonErrorMsg AttributeError]))
   \<and> ((\<exists>kvs. data = JObj kvs) \<and> find_tabs data possible_paths = Inr None
        \<longrightarrow> extract_videos_from_json str_of data = Inr ([], []))"
proof -
  have a: "\<exists>videos out. extract_videos_from_json str_of data = Inr (videos, out)
       \<and> videos = fst (snd (json_walk str_of data))"
  proof (cases "json_walk str_of data")
    case (fields r vs out)
    then show ?thesis
      by (cases r; cases "the r") (auto simp: extract_videos_from_json_def)
  qed
  have b: "extract_videos_from_json str_of data = Inr ([], [ExtractJsonErrorMsg AttributeError])"
    if "\<forall>kvs. data \<noteq> JObj kvs"
    using that by (cases data) (simp_all add: extract_videos_from_json_def json_walk_def)
  have c: "extract_videos_from_json str_of data = Inr ([], [])"
    if "\<exists>kvs. data = JObj kvs" and "find_tabs data possible_paths = Inr None"
    using that by (auto simp: extract_videos_from_json_def json_walk_def)
  from a b c show ?thesis by blast
qed


theorem extract_videos_from_json_never_raises_witness:
  "extract_videos_from_json no_str (JArr []) = Inr ([], [ExtractJsonErrorMsg AttributeError])
   \<and> extract_videos_from_json no_str (JObj []) = Inr ([], [])"
proof -
  have h1: "\<forall>kvs. JArr [] \<noteq> JObj kvs" by simp
  have h2: "(\<exists>kvs. JObj [] = JObj kvs) \<and> find_tabs (JObj []) possible_paths = Inr None"
    by (simp add: possible_paths_def bind_err_def)
  from extract_videos_from_json_never_raises[of no_str "JArr []"] h1
  have a: "extract_videos_from_json no_str (JArr []) = Inr ([], [ExtractJsonErrorMsg AttributeError])"
    by blast
  from extract_videos_from_json_never_raises[of no_str "JObj []"] h2
  have b: "extract_videos_from_json no_str (JObj []) = Inr ([], [])"
    by blast
  from a b show ?thesis by simp
qed

text \<open>
  C5 as stated fails: an exception after a record has been appended is caught, but the
  result is the records found so far, not the empty list.
\<close>

theorem extract_videos_from_json_partial_result:
  "json_walk no_str (ex_blob [ex_tab ''Videos'' [ex_section [ex_item ''b''], JStr ''x'']]) =
     (Some AttributeError, ([Video ''https://www.youtube.com/watch?v=b''], []))
   \<and> extract_videos_from_json no_str
         (ex_blob [ex_tab ''Videos'' [ex_section [ex_item ''b''], JStr ''x'']]) =
       Inr ([Video ''https://www.youtube.com/watch?v=b''], [ExtractJsonErrorMsg AttributeError])"
  by code_simp

theorem videos_tab_selected_witness:
  "json_walk no_str
     (ex_blob [ex_tab ''videos'' [ex_section [ex_item ''a'']],
               ex_tab ''Videos'' [ex_section [ex_item ''b'']],
               ex_tab ''Videos'' [ex_section [ex_item ''c'']]]) =
     (None, ([Video ''https://www.youtube.com/watch?v=b''], []))
   \<and> extract_videos_from_json no_str (ex_blob [ex_tab ''videos'' [ex_section [ex_item ''a'']]]) =
       Inr ([], [])"
proof -
  let ?lower = "ex_tab ''videos'' [ex_section [ex_item ''a'']]"
  let ?tab = "ex_tab ''Videos'' [ex_section [ex_item ''b'']]"
  let ?post = "[ex_tab ''Videos'' [ex_section [ex_item ''c'']]]"
  let ?tr = "JObj [(''title'', JStr ''Videos''),
                   (''content'', JObj [(''sectionListRenderer'',
                       JObj [(''contents'', JArr [ex_section [ex_item ''b'']])])])]"
  have f1: "find_tabs (ex_blob ([?lower] @ ?tab # ?post)) possible_paths =
              Inr (Some (JArr ([?lower] @ ?tab # ?post)))"
    by (simp add: ex_blob_def possible_paths_def bind_err_def)
  have f2: "find_tabs (ex_blob [?lower]) possible_paths = Inr (Some (JArr [?lower]))"
    by (simp add: ex_blob_def possible_paths_def bind_err_def)
  have t1: "\<forall>t\<in>set [?lower]. \<exists>title. tab_title t = Some title \<and> title \<noteq> JStr ''Videos''"
    by (simp add: tab_title_def ex_tab_def)
  have t2: "tab_title ?tab = Some (JStr ''Videos'')"
    by (simp add: tab_title_def ex_tab_def)
  have t3: "py_get ?tab ''tabRenderer'' (JObj []) = Inr ?tr"
    by (simp add: ex_tab_def)
  have v: "videos_tab no_str ?tr ([], []) = (None, ([Video ''https://www.youtube.com/watch?v=b''], []))"
    by code_simp
  from videos_tab_selected[OF f1[unfolded ex_blob_def], of "[?lower]" ?tab ?post ?tr no_str]
    t1 t2 t3 v
  have a: "json_walk no_str (ex_blob ([?lower] @ ?tab # ?post)) =
             (None, ([Video ''https://www.youtube.com/watch?v=b''], []))"
    unfolding ex_blob_def by simp
  from videos_tab_selected[OF f2[unfolded ex_blob_def], of "[]" ?tab "[]" ?tr no_str] t1
  have b: "extract_videos_from_json no_str (ex_blob [?lower]) = Inr ([], [])"
    unfolding ex_blob_def by simp
  from a b show ?thesis by simp
qed

section \<open>The set differ\<close>

lemma urls_loop_collection:
  "urls_loop (map (\<lambda>u. JObj [(''url'', JStr u)]) xs) s = Inr (s \<union> KStr ` set xs)"
  by (induction xs arbitrary: s) (auto simp: bind_err_def)

lemma extract_urls_collection: "extract_urls (video_collection xs) = Inr (KStr ` set xs)"
  by (simp add: extract_urls_def video_collection_def bind_err_def urls_loop_collection)

lemma py_sorted_strings: "py_sorted (KStr ` s) = Inr (map KStr (sorted_list_of_set s))"
  by (simp add: py_sorted_def image_image)

lemma KStr_diff: "KStr ` a - KStr ` b = KStr ` (a - b)"
  by auto

lemma KStr_inter: "KStr ` a \<inter> KStr ` b = KStr ` (a \<inter> b)"
  by auto

lemma card_KStr: "card (KStr ` a) = card a"
  by (rule card_image) (simp add: inj_on_def)

lemma find_url_differences_collections:
  assumes "files w p1 = Content t1" and "loads t1 = Inr (video_collection xs)"
    and "files w p2 = Content t2" and "loads t2 = Inr (video_collection ys)"
  shows "find_url_differences loads w p1 p2 =
     Inr (Some \<lparr>only_in_file1 = map KStr (sorted_list_of_set (set xs - set ys)),
                only_in_file2 = map KStr (sorted_list_of_set (set ys - set xs)),
                common_urls = map KStr (sorted_list_of_set (set xs \<inter> set ys)),
                file1_count = card (set xs), file2_count = card (set ys),
                common_count = card (set xs \<inter> set ys)\<rparr>, [])"
proof -
  have l1: "load_json_file loads w p1 = Inr (Some (video_collection xs), [])"
    using assms(1,2) by (simp add: load_json_file_def video_collection_def)
  have l2: "load_json_file loads w p2 = Inr (Some (video_collection ys), [])"
    using assms(3,4) by (simp add: load_json_file_def video_collection_def)
  show ?thesis
    by (simp add: find_url_differences_def l1 l2 bind_err_def extract_urls_collection
        KStr_diff KStr_inter py_sorted_strings card_KStr)
qed


text \<open>
  C1. For two collection files with URL lists \<open>xs\<close> and \<open>ys\<close>, the differ returns a report
  whose three sequences enumerate \<open>A - B\<close>, \<open>B - A\<close> and \<open>A \<inter> B\<close> for the URL sets \<open>A\<close> and
  \<open>B\<close>, each sorted ascending in the lexicographic order of strings and without
  repetition, and whose counts are the cardinalities of the sets, not the lengths of the
  lists.
\<close>

theorem find_url_differences_sets:
  assumes "files w p1 = Content t1" and "loads t1 = Inr (video_collection xs)"
    and "files w p2 = Content t2" and "loads t2 = Inr (video_collection ys)"
  shows "\<exists>l1 l2 l3.
     find_url_differences loads w p1 p2 =
       Inr (Some \<lparr>only_in_file1 = map KStr l1, only_in_file2 = map KStr l2,
                  common_urls = map KStr l3,
                  file1_count = card (set xs), file2_count = card (set ys),
                  common_count = card (set xs \<inter> set ys)\<rparr>, [])
     \<and> set l1 = set xs - set ys \<and> sorted l1 \<and> distinct l1
     \<and> set l2 = set ys - set xs \<and> sorted l2 \<and> distinct l2
     \<and> set l3 = set xs \<inter> set ys \<and> sorted l3 \<and> distinct l3"
proof (intro exI conjI)
  show "find_url_differences loads w p1 p2 =
     Inr (Some \<lparr>only_in_file1 = map KStr (sorted_list_of_set (set xs - set ys)),
                only_in_file2 = map KStr (sorted_list_of_set (set ys - set xs)),
                common_urls = map KStr (sorted_list_of_set (set xs \<inter> set ys)),
                file1_count = card (set xs), file2_count = card (set ys),
                common_count = card (set xs \<inter> set ys)\<rparr>, [])"
    by (rule find_url_differences_collections[OF assms])
qed simp_all

theorem find_url_differences_sets_witness:
  "find_url_differences ex_loads ex_files ''a.json'' ''b.json'' =
     Inr (Some \<lparr>only_in_file1 = [KStr ''A''], only_in_file2 = [KStr ''C''],
                common_urls = [KStr ''B''],
                file1_count = 2, file2_count = 2, common_count = 1\<rparr>, [])"
proof -
  have h1: "files ex_files ''a.json'' = Content ''first''" by (simp add: ex_files_def)
  have h2: "ex_loads ''first'' = Inr (video_collection [''B'', ''A'', ''B''])"
    by (simp add: ex_loads_def)
  have h3: "files ex_files ''b.json'' = Content ''second''" by (simp add: ex_files_def)
  have h4: "ex_loads ''second'' = Inr (video_collection [''C'', ''B''])"
    by (simp add: ex_loads_def)
  from find_url_differences_sets[OF h1 h2 h3 h4]
  obtain l1 l2 l3 where r: "find_url_differences ex_loads ex_files ''a.json'' ''b.json'' =
       Inr (Some \<lparr>only_in_file1 = map KStr l1, only_in_file2 = map KStr l2,
                  common_urls = map KStr l3,
                  file1_count = card (set [''B'', ''A'', ''B'']), file2_count = card (set [''C'', ''B'']),
                  common_count = card (set [''B'', ''A'', ''B''] \<inter> set [''C'', ''B''])\<rparr>, [])"
    and l1: "set l1 = set [''B'', ''A'', ''B''] - set [''C'', ''B'']" "distinct l1"
    and l2: "set l2 = set [''C'', ''B''] - set [''B'', ''A'', ''B'']" "distinct l2"
    and l3: "set l3 = set [''B'', ''A'', ''B''] \<inter> set [''C'', ''B'']" "distinct l3"
    by blast
  have s1: "set l1 = {''A''}" using l1(1) by auto
  have s2: "set l2 = {''C''}" using l2(1) by auto
  have s3: "set l3 = {''B''}" using l3(1) by auto
  have e1: "l1 = [''A'']" using s1 l1(2) by (cases l1; cases "tl l1") auto
  have e2: "l2 = [''C'']" using s2 l2(2) by (cases l2; cases "tl l2") auto
  have e3: "l3 = [''B'']" using s3 l3(2) by (cases l3; cases "tl l3") auto
  have c1: "card (set [''B'', ''A'', ''B'']) = 2" by code_simp
  have c2: "card (set [''C'', ''B'']) = 2" by code_simp
  have c3: "card (set [''B'', ''A'', ''B''] \<inter> set [''C'', ''B'']) = 1" by code_simp
  show ?thesis unfolding r e1 e2 e3 c1 c2 c3 by simp
qed

text \<open>
  C7. The differ is symmetric up to swapping roles: whenever it returns a report for the
  files in one order it returns one for the other order, with the same common sequence and
  with the two one-sided sequences (and the two counts) exchanged.
\<close>

theorem find_url_differences_symmetric:
  assumes "find_url_differences loads w p1 p2 = Inr (Some r, out)"
  shows "\<exists>r' out'. find_url_differences loads w p2 p1 = Inr (Some r', out')
           \<and> common_urls r' = common_urls r
           \<and> only_in_file2 r' = only_in_file1 r \<and> only_in_file1 r' = only_in_file2 r
           \<and> common_count r' = common_count r
           \<and> file2_count r' = file1_count r \<and> file1_count r' = file2_count r"
  using assms
  by (auto simp: find_url_differences_def bind_err_def Int_commute
      split: sum.splits option.splits prod.splits)

theorem find_url_differences_symmetric_witness:
  "\<exists>r' out'. find_url_differences ex_loads ex_files ''b.json'' ''a.json'' = Inr (Some r', out')
      \<and> common_urls r' = [KStr ''B'']
      \<and> only_in_file2 r' = [KStr ''A''] \<and> only_in_file1 r' = [KStr ''C'']"
proof -
  have h: "find_url_differences ex_loads ex_files ''a.json'' ''b.json'' =
     Inr (Some \<lparr>only_in_file1 = [KStr ''A''], only_in_file2 = [KStr ''C''],
                common_urls = [KStr ''B''],
                file1_count = 2, file2_count = 2, common_count = 1\<rparr>, [])"
    by code_simp
  from find_url_differences_symmetric[OF h] show ?thesis by auto
qed

lemma urls_loop_hashable:
  assumes "\<forall>video\<in>set vs. \<forall>kvs u. video = JObj kvs \<and> map_of kvs ''url'' = Some u
             \<longrightarrow> (\<exists>k. py_hash_key u = Inr k)"
  shows "\<exists>s'. urls_loop vs s = Inr s'"
  using assms
proof (induction vs arbitrary: s)
  case Nil
  show ?case by simp
next
  case (Cons v vs)
  from Cons.prems have rest: "\<forall>video\<in>set vs. \<forall>kvs u. video = JObj kvs \<and> map_of kvs ''url'' = Some u
             \<longrightarrow> (\<exists>k. py_hash_key u = Inr k)"
    by auto
  show ?case
  proof (cases "\<exists>kvs u. v = JObj kvs \<and> map_of kvs ''url'' = Some u")
    case True
    then obtain kvs u where v: "v = JObj kvs" "map_of kvs ''url'' = Some u" by blast
    with Cons.prems obtain k where k: "py_hash_key u = Inr k" by auto
    from Cons.IH[OF rest, of "insert k s"] v k show ?thesis
      by (simp add: bind_err_def)
  next
    case False
    then have "urls_loop (v # vs) s = urls_loop vs s"
      by (cases v) (auto split: option.splits)
    with Cons.IH[OF rest, of s] show ?thesis by simp
  qed
qed

lemma extract_urls_no_list:
  assumes "map_of kvs ''videos'' = None \<or> (\<exists>v. map_of kvs ''videos'' = Some v \<and> (\<forall>vs. v \<noteq> JArr vs))"
  shows "extract_urls (JObj kvs) = Inr {}"
  using assms by (auto simp: extract_urls_def bind_err_def split: json.splits)

text \<open>
  C10 (as amended). For a parsed input whose top-level value is a mapping, \<open>extract_urls\<close>
  gives the empty set when there is no \<open>videos\<close> key or its value is not a list; entries of
  the list that are not mappings or lack a \<open>url\<close> key are skipped; and it does not fail as
  long as every \<open>url\<close> value of a mapping entry is hashable. A file that holds such a
  mapping without a list of videos gives an empty URL set and a normal report.
\<close>

theorem extract_urls_of_mapping:
  "(map_of kvs ''videos'' = None \<or> (\<exists>v. map_of kvs ''videos'' = Some v \<and> (\<forall>vs. v \<noteq> JArr vs))
      \<longrightarrow> extract_urls (JObj kvs) = Inr {})
   \<and> ((\<forall>m. video \<noteq> JObj m) \<or> (\<exists>m. video = JObj m \<and> map_of m ''url'' = None)
      \<longrightarrow> urls_loop (video # rest) s = urls_loop rest s)
   \<and> ((\<forall>vs. map_of kvs ''videos'' = Some (JArr vs)
          \<longrightarrow> (\<forall>video\<in>set vs. \<forall>m u. video = JObj m \<and> map_of m ''url'' = Some u
                 \<longrightarrow> (\<exists>k. py_hash_key u = Inr k)))
      \<longrightarrow> (\<exists>urls. extract_urls (JObj kvs) = Inr urls))
   \<and> (files w p1 = Content t1 \<and> loads t1 = Inr (JObj kvs)
       \<and> (map_of kvs ''videos'' = None
            \<or> (\<exists>v. map_of kvs ''videos'' = Some v \<and> (\<forall>vs. v \<noteq> JArr vs)))
       \<and> files w p2 = Content t2 \<and> loads t2 = Inr d2 \<and> d2 \<noteq> JNull
       \<and> extract_urls d2 = Inr urls2 \<and> py_sorted urls2 = Inr l2
      \<longrightarrow> find_url_differences loads w p1 p2 =
            Inr (Some \<lparr>only_in_file1 = [], only_in_file2 = l2, common_urls = [],
                       file1_count = 0, file2_count = card urls2, common_count = 0\<rparr>, []))"
proof -
  have a: "extract_urls (JObj kvs) = Inr {}"
    if "map_of kvs ''videos'' = None \<or> (\<exists>v. map_of kvs ''videos'' = Some v \<and> (\<forall>vs. v \<noteq> JArr vs))"
    using that by (rule extract_urls_no_list)
  have b: "urls_loop (video # rest) s = urls_loop rest s"
    if "(\<forall>m. video \<noteq> JObj m) \<or> (\<exists>m. video = JObj m \<and> map_of m ''url'' = None)"
    using that by (cases video) auto
  have c: "\<exists>urls. extract_urls (JObj kvs) = Inr urls"
    if h: "\<forall>vs. map_of kvs ''videos'' = Some (JArr vs)
          \<longrightarrow> (\<forall>video\<in>set vs. \<forall>m u. video = JObj m \<and> map_of m ''url'' = Some u
                 \<longrightarrow> (\<exists>k. py_hash_key u = Inr k))"
  proof (cases "\<exists>vs. map_of kvs ''videos'' = Some (JArr vs)")
    case True
    then obtain vs where vs: "map_of kvs ''videos'' = Some (JArr vs)" by blast
    with h have "\<forall>video\<in>set vs. \<forall>m u. video = JObj m \<and> map_of m ''url'' = Some u
                 \<longrightarrow> (\<exists>k. py_hash_key u = Inr k)" by blast
    from urls_loop_hashable[OF this, of "{}"] vs show ?thesis
      by (simp add: extract_urls_def bind_err_def)
  next
    case False
    then have "map_of kvs ''videos'' = None
        \<or> (\<exists>v. map_of kvs ''videos'' = Some v \<and> (\<forall>vs. v \<noteq> JArr vs))"
      by (cases "map_of kvs ''videos''") auto
    from extract_urls_no_list[OF this] show ?thesis by simp
  qed
  have d: "find_url_differences loads w p1 p2 =
            Inr (Some \<lparr>only_in_file1 = [], only_in_file2 = l2, common_urls = [],
                       file1_count = 0, file2_count = card urls2, common_count = 0\<rparr>, [])"
    if "files w p1 = Content t1" and "loads t1 = Inr (JObj kvs)"
      and n: "map_of kvs ''videos'' = None
            \<or> (\<exists>v. map_of kvs ''videos'' = Some v \<and> (\<forall>vs. v \<noteq> JArr vs))"
      and "files w p2 = Content t2" and "loads t2 = Inr d2" and "d2 \<noteq> JNull"
      and "extract_urls d2 = Inr urls2" and "py_sorted urls2 = Inr l2"
  proof -
    have l1: "load_json_file loads w p1 = Inr (Some (JObj kvs), [])"
      using that by (simp add: load_json_file_def)
    have l2: "load_json_file loads w p2 = Inr (Some d2, [])"
      using that by (simp add: load_json_file_def)
    have e: "py_sorted {} = Inr []" by (simp add: py_sorted_def)
    show ?thesis
      using that(7,8) by (simp add: find_url_differences_def l1 l2 bind_err_def
          extract_urls_no_list[OF n] e)
  qed
  from a b c d show ?thesis by blast
qed

text \<open>
  C10 as stated fails: the valid JSON texts \<open>5\<close> and \<open>"videos"\<close> make \<open>extract_urls\<close> raise
  \<open>TypeError\<close>, as does a \<open>url\<close> whose value is a list, and the differ then ends with that
  exception instead of a report.
\<close>

theorem extract_urls_type_errors:
  "extract_urls (JInt 5) = Inl TypeError
   \<and> extract_urls (JStr ''videos'') = Inl TypeError
   \<and> extract_urls (JObj [(''videos'', JArr [JObj [(''url'', JArr [])]])]) = Inl TypeError
   \<and> find_url_differences ex_loads ex_files ''five.json'' ''b.json'' = Inl TypeError"
  by code_simp


theorem extract_urls_of_mapping_witness:
  "extract_urls (JObj []) = Inr {}
   \<and> urls_loop [JInt 3] {} = Inr {}
   \<and> (\<exists>urls. extract_urls
          (JObj [(''videos'', JArr [JInt 3, JObj [(''title'', JStr ''t'')],
                                   JObj [(''url'', JStr ''A'')]])]) = Inr urls)
   \<and> find_url_differences ex_loads ex_files ''empty.json'' ''b.json'' =
       Inr (Some \<lparr>only_in_file1 = [], only_in_file2 = [KStr ''B'', KStr ''C''], common_urls = [],
                  file1_count = 0, file2_count = 2, common_count = 0\<rparr>, [])"
proof -
  let ?kvs = "[(''videos'', JArr [JInt 3, JObj [(''title'', JStr ''t'')],
                                  JObj [(''url'', JStr ''A'')]])]"
  have n: "map_of [] ''videos'' = None
        \<or> (\<exists>v. map_of [] ''videos'' = Some v \<and> (\<forall>vs. v \<noteq> JArr vs))"
    by simp
  have v: "(\<forall>m. JInt 3 \<noteq> JObj m) \<or> (\<exists>m. JInt 3 = JObj m \<and> map_of m ''url'' = None)"
    by simp
  have h: "\<forall>vs. map_of ?kvs ''videos'' = Some (JArr vs)
          \<longrightarrow> (\<forall>video\<in>set vs. \<forall>m u. video = JObj m \<and> map_of m ''url'' = Some u
                 \<longrightarrow> (\<exists>k. py_hash_key u = Inr k))"
    by auto
  have f1: "files ex_files ''empty.json'' = Content ''{}'' \<and> ex_loads ''{}'' = Inr (JObj [])"
    by (simp add: ex_files_def ex_loads_def)
  have f2: "files ex_files ''b.json'' = Content ''second''
      \<and> ex_loads ''second'' = Inr (video_collection [''C'', ''B''])
      \<and> video_collection [''C'', ''B''] \<noteq> JNull"
    by (simp add: ex_files_def ex_loads_def video_collection_def)
  have e: "extract_urls (video_collection [''C'', ''B'']) = Inr {KStr ''C'', KStr ''B''}"
    by (auto simp: extract_urls_def video_collection_def bind_err_def)
  have s: "py_sorted {KStr ''C'', KStr ''B''} = Inr [KStr ''B'', KStr ''C'']"
    by code_simp
  have c: "card {KStr ''C'', KStr ''B''} = 2" by simp
  from extract_urls_of_mapping[of "[]" "JInt 3" "[]" "{}" ex_files "''empty.json''" "''{}''"
      ex_loads "''b.json''" "''second''" "video_collection [''C'', ''B'']"
      "{KStr ''C'', KStr ''B''}" "[KStr ''B'', KStr ''C'']"] n v f1 f2 e s c
  have a: "extract_urls (JObj []) = Inr {}"
    and b: "urls_loop [JInt 3] {} = Inr {}"
    and d: "find_url_differences ex_loads ex_files ''empty.json'' ''b.json'' =
       Inr (Some \<lparr>only_in_file1 = [], only_in_file2 = [KStr ''B'', KStr ''C''], common_urls = [],
                  file1_count = 0, file2_count = 2, common_count = 0\<rparr>, [])"
    by simp_all
  from extract_urls_of_mapping[of ?kvs] h
  have "\<exists>urls. extract_urls (JObj ?kvs) = Inr urls"
    by blast
  with a b d show ?thesis by simp
qed

section \<open>The extractor run on a missing file\<close>

text \<open>
  C2. A run of the extractor on a page file that does not exist reports the failure at
  once and writes no file, but ends with exit status 0, not with a non-zero one: \<open>main\<close>
  returns without a value and the script does not pass a status to the interpreter.
\<close>

theorem script_missing_file_exit_status:
  assumes "files w html_file = Missing"
  shows "script loads soup_of str_of dumps w [prog, html_file] =
           (0, [ParsingMsg html_file, FileNotFoundMsg html_file, NoVideosMsg], w)
         \<and> script loads soup_of str_of dumps w [prog, html_file, output_file] =
           (0, [ParsingMsg html_file, FileNotFoundMsg html_file, NoVideosMsg], w)"
  using assms by (simp add: script_def main_def parse_youtube_html_def)

theorem script_missing_file_exit_status_witness:
  "script no_loads (\<lambda>text. ex_soup) no_str no_str ex_world
     [''html_youtube_parser.py'', ''missing.html''] =
   (0, [ParsingMsg ''missing.html'', FileNotFoundMsg ''missing.html'', NoVideosMsg], ex_world)"
proof -
  have h: "files ex_world ''missing.html'' = Missing"
    by (simp add: ex_world_def)
  from script_missing_file_exit_status[OF h] show ?thesis by simp
qed

end
